theory Spec2Isabelle
  imports Main "HOL-Library.Word" "HOL-Library.Multiset"
begin

section \<open>Cells and their neighbours\<close>

text \<open>
  A \<open>Cell\<close> of \<open>main.go\<close> is a struct of two \<open>int64\<close> fields \<open>x\<close> and \<open>y\<close>. The fields
  are 64-bit words here, read as two's complement by \<open>sint\<close>; the selectors are called
  \<open>cell_x\<close> and \<open>cell_y\<close> so that \<open>x\<close> and \<open>y\<close> stay free for variables.
\<close>

type_synonym int64 = "64 word"

datatype Cell = Cell (cell_x: int64) (cell_y: int64)

definition MinInt64 :: int64 where
  "MinInt64 = - (2 ^ 63)"

definition MaxInt64 :: int64 where
  "MaxInt64 = 2 ^ 63 - 1"

text \<open>
  \<open>neighbors\<close> sends its cells over a channel from a goroutine; the receiver sees them in
  the order they are sent, so the channel is the list of the cells sent. \<open>yieldForX\<close> is
  the closure of that name: the column \<open>x'\<close> of the neighbourhood, without the cell itself.
\<close>

definition yieldForX :: "Cell \<Rightarrow> int64 \<Rightarrow> Cell list" where
  "yieldForX cell x' =
     (if MinInt64 <s cell_y cell then [Cell x' (cell_y cell - 1)] else []) @
     (if cell_x cell \<noteq> x' then [Cell x' (cell_y cell)] else []) @
     (if cell_y cell <s MaxInt64 then [Cell x' (cell_y cell + 1)] else [])"

definition neighbors :: "Cell \<Rightarrow> Cell list" where
  "neighbors cell =
     (if MinInt64 <s cell_x cell then yieldForX cell (cell_x cell - 1) else []) @
     yieldForX cell (cell_x cell) @
     (if cell_x cell <s MaxInt64 then yieldForX cell (cell_x cell + 1) else [])"

section \<open>The cell set\<close>

text \<open>
  \<open>Cells\<close> is \<open>map[Cell]struct{}\<close>: a set of cells. It is kept as a list without
  repetitions, which stands for the map's memory layout. The Go runtime visits the keys of
  a map in an order of its own choosing, which may differ between any two \<open>range\<close>
  statements; so every \<open>range\<close> over a map asks a schedule for the order, and the
  schedule is a parameter of the model. A schedule is told which \<open>range\<close> statement of
  \<open>main.go\<close> is running.
\<close>

type_synonym Cells = "Cell list"

definition addCell :: "Cell \<Rightarrow> Cells \<Rightarrow> Cells" where
  "addCell cell cells = (if cell \<in> set cells then cells else cell # cells)"

definition hasCell :: "Cells \<Rightarrow> Cell \<Rightarrow> bool" where
  "hasCell cells cell \<longleftrightarrow> cell \<in> set cells"

definition removeCell :: "Cell \<Rightarrow> Cells \<Rightarrow> Cells" where
  "removeCell cell cells = removeAll cell cells"

datatype range_site =
    DeathPass          \<comment> \<open>line 161: \<open>for cell := range cells\<close>\<close>
  | DeadNeighborScan   \<comment> \<open>line 73: \<open>for cell := range cells\<close>\<close>
  | DeadNeighborEmit   \<comment> \<open>line 81: \<open>for deadNeighbor := range deadNeighborCells\<close>\<close>
  | ApplyDeaths        \<comment> \<open>line 179: \<open>for cell := range dyingCells\<close>\<close>
  | ApplyBirths        \<comment> \<open>line 183: \<open>for cell := range birthedCells\<close>\<close>
  | PrintCells         \<comment> \<open>line 143: \<open>for cell := range cells\<close>\<close>

type_synonym schedule = "range_site \<Rightarrow> Cells \<Rightarrow> Cell list"

text \<open>What Go promises of a \<open>range\<close> over a map that is not changed meanwhile: every key
  is visited exactly once.\<close>

definition visits_each_once :: "schedule \<Rightarrow> bool" where
  "visits_each_once rng \<longleftrightarrow> (\<forall>site cells. mset (rng site cells) = mset cells)"

text \<open>\<open>numAliveNeighbors\<close> counts in a \<open>uint8\<close>, whose increment wraps.\<close>

definition numAliveNeighbors :: "Cells \<Rightarrow> Cell \<Rightarrow> 8 word" where
  "numAliveNeighbors cells cell =
     fold (\<lambda>neighbor aliveCount. if hasCell cells neighbor then aliveCount + 1 else aliveCount)
       (neighbors cell) 0"

text \<open>\<open>deadNeighbors\<close> fills a fresh map with the dead neighbours of every live cell and
  then sends its keys over a channel.\<close>

definition deadNeighbors :: "schedule \<Rightarrow> Cells \<Rightarrow> Cell list" where
  "deadNeighbors rng cells =
     (let deadNeighborCells =
        fold (\<lambda>cell acc.
                fold (\<lambda>neighbor acc'. if \<not> hasCell cells neighbor then addCell neighbor acc' else acc')
                  (neighbors cell) acc)
          (rng DeadNeighborScan cells) []
      in rng DeadNeighborEmit deadNeighborCells)"

section \<open>One generation and the simulation loop\<close>

text \<open>The body of the loop of \<open>runGameOfLife\<close> (lines 159 to 186). The lines written to
  the error stream do not feed back into the cells and are left out.\<close>

definition generation :: "schedule \<Rightarrow> Cells \<Rightarrow> Cells" where
  "generation rng cells =
     (let dyingCells =
        fold (\<lambda>cell dying.
                let aliveNeighbors = numAliveNeighbors cells cell
                in if aliveNeighbors < 2 \<or> aliveNeighbors > 3 then addCell cell dying else dying)
          (rng DeathPass cells) [];
      birthedCells =
        fold (\<lambda>cell birthed.
                let aliveNeighbors = numAliveNeighbors cells cell
                in if aliveNeighbors = 3 then addCell cell birthed else birthed)
          (deadNeighbors rng cells) [];
      cells' = fold removeCell (rng ApplyDeaths dyingCells) cells
      in fold addCell (rng ApplyBirths birthedCells) cells')"

text \<open>The loop \<open>for iteration := 0; iteration < iterations; iteration++\<close>. The counter
  never passes \<open>iterations\<close>, so it cannot overflow and is an \<open>int\<close> here. The runtime's
  choices \<open>run\<close> may differ from one iteration to the next.\<close>

function simulate :: "(int \<Rightarrow> schedule) \<Rightarrow> int \<Rightarrow> int \<Rightarrow> Cells \<Rightarrow> Cells" where
  "simulate run iteration iterations cells =
     (if iteration < iterations
      then simulate run (iteration + 1) iterations (generation (run iteration) cells)
      else cells)"
  by pat_completeness auto
termination
  by (relation "measure (\<lambda>(run, iteration, iterations, cells). nat (iterations - iteration))") auto

declare simulate.simps [simp del]

section \<open>Text: runes, white space, lines\<close>

text \<open>
  A Go string is a sequence of bytes, here a \<open>string\<close>. The library functions that
  \<open>parseCells\<close> calls read it as UTF-8: \<open>strings.TrimSpace\<close> and \<open>fmt.Fscanf\<close> work on
  runes (code points, natural numbers here). \<open>DecodeRune\<close> is \<open>utf8.DecodeRune\<close>: the
  rune at the head of the bytes and its width, and the rune \<open>RuneError\<close> of width 1 for a
  byte that starts no valid encoding.
\<close>

type_synonym rune = nat

definition RuneError :: rune where
  "RuneError = 0xFFFD"

definition DecodeRune :: "string \<Rightarrow> rune \<times> nat" where
  "DecodeRune p =
     (let n = length p in
      if n < 1 then (RuneError, 0)
      else
        let p0 = (of_char (p ! 0) :: nat) in
        if p0 < 0x80 then (p0, 1)
        else if p0 < 0xC2 \<or> 0xF4 < p0 then (RuneError, 1)
        else
          let sz = (if p0 \<le> 0xDF then 2 else if p0 \<le> 0xEF then 3 else 4 :: nat);
              lo = (if p0 = 0xE0 then 0xA0 else if p0 = 0xF0 then 0x90 else 0x80 :: nat);
              hi = (if p0 = 0xED then 0x9F else if p0 = 0xF4 then 0x8F else 0xBF :: nat)
          in
          if n < sz then (RuneError, 1)
          else
            let b1 = (of_char (p ! 1) :: nat) in
            if b1 < lo \<or> hi < b1 then (RuneError, 1)
            else if sz \<le> 2 then ((p0 mod 0x20) * 0x40 + b1 mod 0x40, 2)
            else
              let b2 = (of_char (p ! 2) :: nat) in
              if b2 < 0x80 \<or> 0xBF < b2 then (RuneError, 1)
              else if sz \<le> 3 then ((p0 mod 0x10) * 0x1000 + (b1 mod 0x40) * 0x40 + b2 mod 0x40, 3)
              else
                let b3 = (of_char (p ! 3) :: nat) in
                if b3 < 0x80 \<or> 0xBF < b3 then (RuneError, 1)
                else ((p0 mod 8) * 0x40000 + (b1 mod 0x40) * 0x1000 + (b2 mod 0x40) * 0x40
                        + b3 mod 0x40, 4))"

text \<open>The runes of a string, as \<open>for _, r := range s\<close> and repeated \<open>ReadRune\<close> give them.\<close>

function runes :: "string \<Rightarrow> rune list" where
  "runes p =
     (if p = [] then []
      else fst (DecodeRune p) # runes (drop (snd (DecodeRune p)) p))"
  by pat_completeness auto
termination
proof (relation "measure length")
  show "wf (measure length)" by simp
next
  fix p :: string
  assume "p \<noteq> []"
  moreover from this have "0 < snd (DecodeRune p)"
    by (simp add: DecodeRune_def Let_def)
  ultimately show "(drop (snd (DecodeRune p)) p, p) \<in> measure length"
    by simp
qed

declare runes.simps [simp del]

text \<open>\<open>unicode.IsSpace\<close> and the table \<open>space\<close> of package \<open>fmt\<close> hold the same runes.\<close>

definition isSpace :: "rune \<Rightarrow> bool" where
  "isSpace r \<longleftrightarrow>
     (0x09 \<le> r \<and> r \<le> 0x0D) \<or> r = 0x20 \<or> r = 0x85 \<or> r = 0xA0 \<or> r = 0x1680 \<or>
     (0x2000 \<le> r \<and> r \<le> 0x200A) \<or> r = 0x2028 \<or> r = 0x2029 \<or> r = 0x202F \<or>
     r = 0x205F \<or> r = 0x3000"

text \<open>\<open>strings.TrimSpace\<close>, on the runes of the line.\<close>

definition TrimSpace :: "rune list \<Rightarrow> rune list" where
  "TrimSpace s = rev (dropWhile isSpace (rev (dropWhile isSpace s)))"

definition HasPrefix :: "rune list \<Rightarrow> rune list \<Rightarrow> bool" where
  "HasPrefix s prefix \<longleftrightarrow> length prefix \<le> length s \<and> take (length prefix) s = prefix"

text \<open>
  \<open>bufio.Scanner\<close> with its default split function \<open>ScanLines\<close>: the text is cut at every
  newline, a last line without newline counts when it is not empty, and one trailing
  carriage return is dropped from each line. The scanner's buffer holds
  \<open>MaxScanTokenSize\<close> bytes; at a longer line \<open>Scan\<close> returns false, and since
  \<open>parseCells\<close> never asks \<open>scanner.Err()\<close>, the loop just ends there.
\<close>

definition newline :: char where
  "newline = CHR 0x0A"

definition MaxScanTokenSize :: nat where
  "MaxScanTokenSize = 64 * 1024"

function splitLines :: "string \<Rightarrow> string list" where
  "splitLines data =
     (if data = [] then []
      else takeWhile (\<lambda>c. c \<noteq> newline) data
             # splitLines (drop 1 (dropWhile (\<lambda>c. c \<noteq> newline) data)))"
  by pat_completeness auto
termination
proof (relation "measure length")
  show "wf (measure length)" by simp
next
  fix data :: string
  assume "data \<noteq> []"
  then have "0 < length data" by simp
  moreover have "length (dropWhile (\<lambda>c. c \<noteq> newline) data) \<le> length data"
    by (rule length_dropWhile_le)
  ultimately have "length (drop 1 (dropWhile (\<lambda>c. c \<noteq> newline) data)) < length data"
    unfolding length_drop by linarith
  then show "(drop 1 (dropWhile (\<lambda>c. c \<noteq> newline) data), data) \<in> measure length"
    by simp
qed

declare splitLines.simps [simp del]

definition dropCR :: "string \<Rightarrow> string" where
  "dropCR data = (if data \<noteq> [] \<and> last data = CHR 0x0D then butlast data else data)"

definition scanLines :: "string \<Rightarrow> string list" where
  "scanLines text = map dropCR (takeWhile (\<lambda>l. length l < MaxScanTokenSize) (splitLines text))"

section \<open>Reading two integers: \<open>fmt.Fscanf\<close> with the format \<open>"%d %d"\<close>\<close>

text \<open>
  The scanner of package \<open>fmt\<close>, for the one format \<open>parseCells\<close> uses, on the runes of
  the trimmed line. \<open>None\<close> is any outcome with an error, which for this format and two
  operands is any outcome with fewer than two items. An integer is an optional sign and
  decimal digits; the space of the format asks for white space or the end of the input;
  input left over after the second integer is not looked at. (The scanner would stop an
  operand after \<open>2 ^ 30\<close> runes; a line of \<open>scanLines\<close> is shorter.)
\<close>

definition SkipSpace :: "rune list \<Rightarrow> rune list option" where
  \<comment> \<open>discards white space; a newline is an error for \<open>Fscanf\<close>\<close>
  "SkipSpace inp =
     (case dropWhile (\<lambda>r. isSpace r \<and> r \<noteq> 0x0A) inp of
        [] \<Rightarrow> Some []
      | r # rest \<Rightarrow> if r = 0x0A then None else Some (r # rest))"

definition isDigit :: "rune \<Rightarrow> bool" where
  "isDigit r \<longleftrightarrow> 0x30 \<le> r \<and> r \<le> 0x39"

fun digitsValue :: "nat \<Rightarrow> rune list \<Rightarrow> nat" where
  "digitsValue acc [] = acc"
| "digitsValue acc (d # ds) = digitsValue (acc * 10 + (d - 0x30)) ds"

definition ParseInt :: "bool \<Rightarrow> rune list \<Rightarrow> int64 option" where
  \<comment> \<open>\<open>strconv.ParseInt(tok, 10, 64)\<close> on a sign and decimal digits: out of range is an error\<close>
  "ParseInt neg ds =
     (let un = digitsValue 0 ds in
      if \<not> neg \<and> un \<ge> 2 ^ 63 then None
      else if neg \<and> un > 2 ^ 63 then None
      else Some (if neg then - word_of_nat un else word_of_nat un))"

definition scanInt :: "rune list \<Rightarrow> (int64 \<times> rune list) option" where
  "scanInt inp =
     (case SkipSpace inp of
        None \<Rightarrow> None
      | Some [] \<Rightarrow> None
      | Some (r # rest) \<Rightarrow>
          let signed = (r = 0x2B \<or> r = 0x2D);
              body = (if signed then rest else r # rest);
              ds = takeWhile isDigit body
          in if ds = [] then None
             else (case ParseInt (r = 0x2D) ds of
                     None \<Rightarrow> None
                   | Some i \<Rightarrow> Some (i, dropWhile isDigit body)))"

definition matchSpace :: "rune list \<Rightarrow> rune list option" where
  \<comment> \<open>the space of the format: one or more spaces of the input, or its end\<close>
  "matchSpace inp =
     (case inp of
        [] \<Rightarrow> Some []
      | r # rest \<Rightarrow>
          if \<not> isSpace r \<or> r = 0x0A then None
          else Some (dropWhile (\<lambda>r. isSpace r \<and> r \<noteq> 0x0A) inp))"

definition Fscanf :: "rune list \<Rightarrow> (int64 \<times> int64) option" where
  "Fscanf line =
     (case SkipSpace line of None \<Rightarrow> None | Some r0 \<Rightarrow>
       (case scanInt r0 of None \<Rightarrow> None | Some (x, r1) \<Rightarrow>
         (case matchSpace r1 of None \<Rightarrow> None | Some r2 \<Rightarrow>
           (case SkipSpace r2 of None \<Rightarrow> None | Some r3 \<Rightarrow>
             (case scanInt r3 of None \<Rightarrow> None | Some (y, r4) \<Rightarrow> Some (x, y))))))"

section \<open>Parsing and printing\<close>

datatype error =
    FileAccessError      \<comment> \<open>\<open>os.Open\<close> failed\<close>
  | MalformedLine nat    \<comment> \<open>"failed to parse line 'n'"\<close>
  | MissingHeader        \<comment> \<open>"Invalid Game of Life file: needed #Life 1.06 indicator as first line"\<close>
  | WriteError           \<comment> \<open>\<open>Fprintf\<close> failed\<close>

definition FILE_HEADER :: string where
  "FILE_HEADER = ''#Life 1.06''"

text \<open>The loop of \<open>parseCells\<close> over the scanner's lines, with its two variables.\<close>

fun parseLines :: "string list \<Rightarrow> Cells \<Rightarrow> bool \<Rightarrow> error + Cells" where
  "parseLines [] cells headerFound =
     (if \<not> headerFound then Inl MissingHeader else Inr cells)"
| "parseLines (text # rest) cells headerFound =
     (let line = TrimSpace (runes text) in
      if HasPrefix line (runes ''#'') then
        parseLines rest cells
          (if line = runes FILE_HEADER \<and> length cells = 0 then True else headerFound)
      else
        (case Fscanf line of
           None \<Rightarrow> Inl (MalformedLine (length cells + 1))
         | Some (x, y) \<Rightarrow> parseLines rest (addCell (Cell x y) cells) headerFound))"

text \<open>The file system gives the bytes of the file at a path, or nothing when \<open>os.Open\<close>
  fails.\<close>

type_synonym filesystem = "string \<Rightarrow> string option"

definition parseCells :: "filesystem \<Rightarrow> string \<Rightarrow> error + Cells" where
  "parseCells fs inputFile =
     (case fs inputFile of
        None \<Rightarrow> Inl FileAccessError
      | Some text \<Rightarrow> parseLines (scanLines text) [] False)"

text \<open>\<open>%d\<close> of \<open>Fprintf\<close>: the decimal digits of the magnitude, after a minus sign for a
  negative number.\<close>

function fmtDigits :: "nat \<Rightarrow> string" where
  "fmtDigits u =
     (if u \<ge> 10 then fmtDigits (u div 10) @ [char_of (0x30 + u mod 10)]
      else [char_of (0x30 + u)])"
  by pat_completeness auto
termination
  by (relation "measure id") auto

declare fmtDigits.simps [simp del]

definition fmtInteger :: "int64 \<Rightarrow> string" where
  "fmtInteger v =
     (let negative = v <s 0;
          u = (if negative then - v else v)
      in (if negative then ''-'' else []) @ fmtDigits (unat u))"

text \<open>An \<open>io.Writer\<close>: what has been written, and how many more writes succeed (\<open>None\<close>:
  all of them).\<close>

record writer =
  written :: string
  writes_left :: "nat option"

definition Fprintf :: "writer \<Rightarrow> string \<Rightarrow> error + writer" where
  "Fprintf w s =
     (case writes_left w of
        None \<Rightarrow> Inr (w\<lparr>written := written w @ s\<rparr>)
      | Some 0 \<Rightarrow> Inl WriteError
      | Some (Suc n) \<Rightarrow> Inr (w\<lparr>written := written w @ s, writes_left := Some n\<rparr>))"

fun printLines :: "Cell list \<Rightarrow> writer \<Rightarrow> error option \<times> writer" where
  "printLines [] w = (None, w)"
| "printLines (cell # rest) w =
     (case Fprintf w (fmtInteger (cell_x cell) @ '' '' @ fmtInteger (cell_y cell) @ [newline]) of
        Inl err \<Rightarrow> (Some err, w)
      | Inr w' \<Rightarrow> printLines rest w')"

definition printCells :: "schedule \<Rightarrow> writer \<Rightarrow> Cells \<Rightarrow> error option \<times> writer" where
  "printCells rng w cells =
     (case Fprintf w (FILE_HEADER @ [newline, newline]) of
        Inl err \<Rightarrow> (Some err, w)
      | Inr w' \<Rightarrow> printLines (rng PrintCells cells) w')"

section \<open>The entry function\<close>

text \<open>
  \<open>runGameOfLife\<close> reads the package-level flag variable \<open>inputArg\<close>, so the value of
  the flag is an input of the model, next to the function's own parameters \<open>inputFile\<close> and
  \<open>iterations\<close>, the file system, the runtime's choices and the standard output. The
  result is the error returned, if any, and the standard output afterwards. The runtime's
  choice for the \<open>range\<close> of \<open>printCells\<close> is the one filed under \<open>iterations\<close>.
\<close>

datatype run_error =
    ParsingCellsFailed error    \<comment> \<open>"parsing cells failed: ..."\<close>
  | PrintingCellsFailed error   \<comment> \<open>"printing cells failed: ..."\<close>

definition runGameOfLife ::
  "string \<Rightarrow> filesystem \<Rightarrow> (int \<Rightarrow> schedule) \<Rightarrow> writer \<Rightarrow> string \<Rightarrow> int \<Rightarrow> run_error option \<times> writer" where
  "runGameOfLife inputArg fs run stdout inputFile iterations =
     (case parseCells fs inputArg of
        Inl err \<Rightarrow> (Some (ParsingCellsFailed err), stdout)
      | Inr cells \<Rightarrow>
          (case printCells (run iterations) stdout (simulate run 0 iterations cells) of
             (Some err, w) \<Rightarrow> (Some (PrintingCellsFailed err), w)
           | (None, w) \<Rightarrow> (None, w)))"

section \<open>The rule of the game as the specification words it\<close>

text \<open>
  The specification speaks of sets of cells: \<open>countLiveNeighbors\<close> is the number of
  neighbours of a cell that are members of the set, \<open>candidateDeadNeighbors\<close> the dead
  cells next to a live one, and one \<open>step\<close> keeps the live cells with two or three live
  neighbours and adds the candidates with exactly three. \<open>in_int64\<close> is the range of a
  coordinate. The two schedules \<open>in_order\<close> and \<open>reversed\<close> and the pattern \<open>blinker\<close>
  are concrete inputs for the statements below.
\<close>

definition in_int64 :: "int \<Rightarrow> bool" where
  "in_int64 i \<longleftrightarrow> - (2 ^ 63) \<le> i \<and> i < 2 ^ 63"

definition countLiveNeighbors :: "Cell set \<Rightarrow> Cell \<Rightarrow> nat" where
  "countLiveNeighbors C c = card (set (neighbors c) \<inter> C)"

definition candidateDeadNeighbors :: "Cell set \<Rightarrow> Cell set" where
  "candidateDeadNeighbors C = {d. d \<notin> C \<and> (\<exists>c\<in>C. d \<in> set (neighbors c))}"

definition step :: "Cell set \<Rightarrow> Cell set" where
  "step C = {c \<in> C. countLiveNeighbors C c = 2 \<or> countLiveNeighbors C c = 3} \<union>
            {d \<in> candidateDeadNeighbors C. countLiveNeighbors C d = 3}"

definition in_order :: schedule where
  "in_order site cells = cells"

definition reversed :: schedule where
  "reversed site cells = rev cells"

definition blinker :: Cells where
  "blinker = [Cell 0 0, Cell 1 0, Cell 2 0]"

section \<open>Kinds of lines\<close>

text \<open>
  The words of the specification for the lines of an input file, read off the tests that
  \<open>parseCells\<close> makes on a line after trimming it: a comment line starts with \<open>#\<close>, the
  header line is the header token, a coordinate line is no comment and scans as two
  integers, a malformed line is no comment and does not, and a blank line is empty after
  trimming. \<open>empty_file\<close> is a writer that has written nothing yet and never fails, and
  \<open>file_with text\<close> a file system where every path opens a file with that text;
  \<open>only_b_life\<close> has one file, \<open>b.life\<close>, with the header and the cell \<open>(0, 0)\<close>.
\<close>

definition comment_line :: "string \<Rightarrow> bool" where
  "comment_line l \<longleftrightarrow> HasPrefix (TrimSpace (runes l)) (runes ''#'')"

definition header_line :: "string \<Rightarrow> bool" where
  "header_line l \<longleftrightarrow> TrimSpace (runes l) = runes FILE_HEADER"

definition coordinate_line :: "string \<Rightarrow> bool" where
  "coordinate_line l \<longleftrightarrow> \<not> comment_line l \<and> Fscanf (TrimSpace (runes l)) \<noteq> None"

definition malformed_line :: "string \<Rightarrow> bool" where
  "malformed_line l \<longleftrightarrow> \<not> comment_line l \<and> Fscanf (TrimSpace (runes l)) = None"

definition blank_line :: "string \<Rightarrow> bool" where
  "blank_line l \<longleftrightarrow> TrimSpace (runes l) = []"

definition empty_file :: writer where
  "empty_file = \<lparr>written = [], writes_left = None\<rparr>"

definition file_with :: "string \<Rightarrow> filesystem" where
  "file_with text path = Some text"

definition only_b_life :: filesystem where
  "only_b_life p = (if p = ''b.life'' then Some (''#Life 1.06'' @ [newline] @ ''0 0'' @ [newline]) else None)"

section \<open>Properties of the cell set\<close>

lemma set_addCell: "set (addCell c cs) = insert c (set cs)"
  by (auto simp: addCell_def)

lemma distinct_addCell: "distinct cs \<Longrightarrow> distinct (addCell c cs)"
  by (simp add: addCell_def)

lemma set_removeCell: "set (removeCell c cs) = set cs - {c}"
  by (auto simp: removeCell_def)

lemma distinct_removeCell: "distinct cs \<Longrightarrow> distinct (removeCell c cs)"
  by (simp add: removeCell_def distinct_removeAll)

lemma set_fold_addCell: "set (fold addCell xs cs) = set xs \<union> set cs"
  by (induction xs arbitrary: cs) (auto simp: set_addCell)

lemma set_fold_removeCell: "set (fold removeCell xs cs) = set cs - set xs"
  by (induction xs arbitrary: cs) (auto simp: set_removeCell)

lemma set_fold_add_if:
  "set (fold (\<lambda>c acc. if P c then addCell c acc else acc) xs acc) = {c \<in> set xs. P c} \<union> set acc"
  by (induction xs arbitrary: acc) (auto simp: set_addCell)

lemma distinct_fold_add_if:
  "distinct acc \<Longrightarrow> distinct (fold (\<lambda>c acc. if P c then addCell c acc else acc) xs acc)"
  by (induction xs arbitrary: acc) (auto simp: distinct_addCell)

lemma fold_count:
  "fold (\<lambda>n (a :: 8 word). if P n then a + 1 else a) xs a0 = a0 + of_nat (length (filter P xs))"
  by (induction xs arbitrary: a0) auto

lemma length_yieldForX: "length (yieldForX c x') \<le> 3"
  by (simp add: yieldForX_def)

lemma length_neighbors: "length (neighbors c) \<le> 8"
  by (simp add: neighbors_def yieldForX_def)

lemma numAlive_eq: "numAliveNeighbors cells c = of_nat (length (filter (\<lambda>n. n \<in> set cells) (neighbors c)))"
  by (simp add: numAliveNeighbors_def hasCell_def fold_count)

lemma unat_numAlive: "unat (numAliveNeighbors cells c) = length (filter (\<lambda>n. n \<in> set cells) (neighbors c))"
proof -
  have "length (filter (\<lambda>n. n \<in> set cells) (neighbors c)) \<le> 8"
    using length_filter_le[of _ "neighbors c"] length_neighbors[of c] by (meson le_trans)
  then show ?thesis
    by (simp add: numAlive_eq unat_of_nat)
qed

lemma word8_23: "\<not> ((n :: 8 word) < 2 \<or> n > 3) \<longleftrightarrow> unat n = 2 \<or> unat n = 3"
  by unat_arith

lemma word8_3: "(n :: 8 word) = 3 \<longleftrightarrow> unat n = 3"
  by unat_arith

section \<open>Properties of the neighbourhood\<close>

lemma sint_MinInt64: "sint MinInt64 = - (2 ^ 63)"
  by (simp add: MinInt64_def)

lemma sint_MaxInt64: "sint MaxInt64 = 2 ^ 63 - 1"
  by (simp add: MaxInt64_def)

lemma above_Min: "MinInt64 <s v \<longleftrightarrow> - (2 ^ 63) < sint v"
  by (simp add: word_sless_alt sint_MinInt64)

lemma below_Max: "v <s MaxInt64 \<longleftrightarrow> sint v < 2 ^ 63 - 1"
  by (simp add: word_sless_alt sint_MaxInt64)

lemma sint_bounds64: "- (2 ^ 63) \<le> sint (v :: int64)" "sint (v :: int64) < 2 ^ 63"
  using sint_ge[of v] sint_lt[of v] by simp_all

lemma sint_dec: "MinInt64 <s (v :: int64) \<Longrightarrow> sint (v - 1) = sint v - 1"
  using sint_bounds64[of v]
  by (simp add: above_Min sint_word_diff signed_take_bit_int_eq_self)

lemma sint_inc: "(v :: int64) <s MaxInt64 \<Longrightarrow> sint (v + 1) = sint v + 1"
  using sint_bounds64[of v]
  by (simp add: below_Max sint_word_add signed_take_bit_int_eq_self)

lemma sint_inj64: "sint (a :: int64) = sint b \<Longrightarrow> a = b"
  by (rule word_eq_iff_signed[THEN iffD2]) simp

lemma axis:
  "\<bar>sint (a :: int64) - sint v\<bar> \<le> 1 \<longleftrightarrow>
     a = v \<or> (MinInt64 <s v \<and> a = v - 1) \<or> (v <s MaxInt64 \<and> a = v + 1)"
proof
  assume h: "\<bar>sint a - sint v\<bar> \<le> 1"
  then consider "sint a = sint v" | "sint a = sint v - 1" | "sint a = sint v + 1" by linarith
  then show "a = v \<or> (MinInt64 <s v \<and> a = v - 1) \<or> (v <s MaxInt64 \<and> a = v + 1)"
  proof cases
    case 1 then show ?thesis using sint_inj64 by blast
  next
    case 2
    then have m: "MinInt64 <s v" using sint_bounds64(1)[of a] by (simp add: above_Min)
    then have "sint (v - 1) = sint a" using 2 by (simp add: sint_dec)
    then show ?thesis using m sint_inj64 by metis
  next
    case 3
    then have m: "v <s MaxInt64" using sint_bounds64(2)[of a] by (simp add: below_Max)
    then have "sint (v + 1) = sint a" using 3 by (simp add: sint_inc)
    then show ?thesis using m sint_inj64 by metis
  qed
next
  assume "a = v \<or> (MinInt64 <s v \<and> a = v - 1) \<or> (v <s MaxInt64 \<and> a = v + 1)"
  then show "\<bar>sint a - sint v\<bar> \<le> 1"
    by (auto simp: sint_dec sint_inc)
qed

lemma dec_neq: "(v :: int64) - 1 \<noteq> v" by simp
lemma inc_neq: "(v :: int64) + 1 \<noteq> v" by simp
lemma inc_dec_neq: "(v :: int64) + 1 \<noteq> v - 1"
proof
  assume "v + 1 = v - 1"
  then have "(2 :: int64) = 0" by (simp add: algebra_simps)
  then show False by simp
qed

lemma mem_yieldForX:
  "Cell a b \<in> set (yieldForX (Cell x y) x') \<longleftrightarrow>
     a = x' \<and> \<bar>sint b - sint y\<bar> \<le> 1 \<and> (b = y \<longrightarrow> x \<noteq> x')"
  by (auto simp: yieldForX_def axis)

lemma mem_neighbors:
  "Cell a b \<in> set (neighbors (Cell x y)) \<longleftrightarrow>
     Cell a b \<noteq> Cell x y \<and> \<bar>sint a - sint x\<bar> \<le> 1 \<and> \<bar>sint b - sint y\<bar> \<le> 1"
  unfolding neighbors_def
  by (auto simp: mem_yieldForX axis[of a x])

lemma set_neighbors:
  "set (neighbors c) =
     {d. d \<noteq> c \<and> \<bar>sint (cell_x d) - sint (cell_x c)\<bar> \<le> 1 \<and> \<bar>sint (cell_y d) - sint (cell_y c)\<bar> \<le> 1}"
proof -
  have "d \<in> set (neighbors c) \<longleftrightarrow>
     d \<noteq> c \<and> \<bar>sint (cell_x d) - sint (cell_x c)\<bar> \<le> 1 \<and> \<bar>sint (cell_y d) - sint (cell_y c)\<bar> \<le> 1" for d
    using mem_neighbors[of "cell_x d" "cell_y d" "cell_x c" "cell_y c"] by simp
  then show ?thesis by blast
qed

lemma distinct_yieldForX: "distinct (yieldForX c x')"
  by (auto simp: yieldForX_def inc_dec_neq)

lemma yieldForX_column: "d \<in> set (yieldForX c p) \<Longrightarrow> cell_x d = p"
  by (auto simp: yieldForX_def split: if_splits)

lemma distinct_neighbors: "distinct (neighbors c)"
  unfolding neighbors_def
  using inc_dec_neq[of "cell_x c"]
  by (auto simp: distinct_yieldForX dest!: yieldForX_column)

lemma length_neighbors_8:
  "MinInt64 <s cell_x c \<Longrightarrow> cell_x c <s MaxInt64 \<Longrightarrow> MinInt64 <s cell_y c \<Longrightarrow> cell_y c <s MaxInt64
   \<Longrightarrow> length (neighbors c) = 8"
  by (simp add: neighbors_def yieldForX_def)

lemma not_above_Min: "\<not> MinInt64 <s v \<longleftrightarrow> v = MinInt64"
  using sint_bounds64(1)[of v] sint_inj64[of v MinInt64]
  by (auto simp: above_Min sint_MinInt64)

lemma not_below_Max: "\<not> v <s MaxInt64 \<longleftrightarrow> v = MaxInt64"
  using sint_bounds64(2)[of v] sint_inj64[of v MaxInt64]
  by (auto simp: below_Max sint_MaxInt64)

section \<open>Properties of one generation\<close>

lemma visits_in_order: "visits_each_once in_order"
  by (simp add: visits_each_once_def in_order_def)

lemma visits_reversed: "visits_each_once reversed"
  by (simp add: visits_each_once_def reversed_def)

lemma visits_set: "visits_each_once rng \<Longrightarrow> set (rng site cells) = set cells"
  unfolding visits_each_once_def by (metis set_mset_mset)

lemma visits_distinct: "visits_each_once rng \<Longrightarrow> distinct (rng site cells) = distinct cells"
  unfolding visits_each_once_def by (metis distinct_count_atmost_1 mset_eq_setD)

lemma numAlive_count: "unat (numAliveNeighbors cells c) = countLiveNeighbors (set cells) c"
proof -
  have "length (filter (\<lambda>n. n \<in> set cells) (neighbors c)) = card (set (filter (\<lambda>n. n \<in> set cells) (neighbors c)))"
    by (metis distinct_card distinct_filter distinct_neighbors)
  also have "set (filter (\<lambda>n. n \<in> set cells) (neighbors c)) = set (neighbors c) \<inter> set cells"
    by auto
  finally show ?thesis
    by (simp add: unat_numAlive countLiveNeighbors_def)
qed

lemma set_dead_inner:
  "set (fold (\<lambda>neighbor acc'. if \<not> hasCell cells neighbor then addCell neighbor acc' else acc') ns acc) =
     {n \<in> set ns. n \<notin> set cells} \<union> set acc"
  using set_fold_add_if[of "\<lambda>n. \<not> hasCell cells n" ns acc] by (simp add: hasCell_def)

lemma set_dead_outer:
  "set (fold (\<lambda>cell acc.
                fold (\<lambda>neighbor acc'. if \<not> hasCell cells neighbor then addCell neighbor acc' else acc')
                  (neighbors cell) acc) xs acc0) =
     {d. d \<notin> set cells \<and> (\<exists>c\<in>set xs. d \<in> set (neighbors c))} \<union> set acc0"
proof (induction xs arbitrary: acc0)
  case Nil
  then show ?case by simp
next
  case (Cons a xs)
  show ?case
    by (simp only: fold_simps Cons.IH set_dead_inner) auto
qed

lemma set_deadNeighbors:
  assumes "visits_each_once rng"
  shows "set (deadNeighbors rng cells) = candidateDeadNeighbors (set cells)"
  by (simp add: deadNeighbors_def Let_def visits_set[OF assms] set_dead_outer candidateDeadNeighbors_def)

lemma set_generation:
  assumes "visits_each_once rng"
  shows "set (generation rng cells) = step (set cells)"
proof -
  let ?n = "numAliveNeighbors cells"
  have dying: "set (fold (\<lambda>cell dying. let aliveNeighbors = ?n cell
                in if aliveNeighbors < 2 \<or> aliveNeighbors > 3 then addCell cell dying else dying)
          (rng DeathPass cells) []) = {c \<in> set cells. ?n c < 2 \<or> ?n c > 3}"
    using set_fold_add_if[of "\<lambda>c. ?n c < 2 \<or> ?n c > 3" "rng DeathPass cells" "[]"]
    by (simp add: Let_def visits_set[OF assms])
  have birthed: "set (fold (\<lambda>cell birthed. let aliveNeighbors = ?n cell
                in if aliveNeighbors = 3 then addCell cell birthed else birthed)
          (deadNeighbors rng cells) []) = {d \<in> candidateDeadNeighbors (set cells). ?n d = 3}"
    using set_fold_add_if[of "\<lambda>c. ?n c = 3" "deadNeighbors rng cells" "[]"]
    by (simp add: Let_def set_deadNeighbors[OF assms])
  have "set (generation rng cells) =
      {d \<in> candidateDeadNeighbors (set cells). ?n d = 3} \<union> (set cells - {c \<in> set cells. ?n c < 2 \<or> ?n c > 3})"
    unfolding generation_def Let_def set_fold_addCell set_fold_removeCell visits_set[OF assms]
    using dying birthed unfolding Let_def by simp
  also have "\<dots> = step (set cells)"
    unfolding step_def numAlive_count[symmetric]
    using word8_23 word8_3 by auto
  finally show ?thesis .
qed

lemma distinct_generation:
  assumes "visits_each_once rng" "distinct cells"
  shows "distinct (generation rng cells)"
proof -
  have a: "distinct (fold addCell xs acc)" if "distinct acc" for xs acc
    using that by (induction xs arbitrary: acc) (auto simp: distinct_addCell)
  have r: "distinct (fold removeCell xs acc)" if "distinct acc" for xs acc
    using that by (induction xs arbitrary: acc) (auto simp: distinct_removeCell)
  show ?thesis
    unfolding generation_def Let_def by (rule a, rule r, rule assms(2))
qed

lemma set_simulate:
  assumes "\<forall>i. visits_each_once (run i)"
  shows "set (simulate run i n cells) = (step ^^ nat (n - i)) (set cells)"
  using assms
proof (induction run i n cells rule: simulate.induct)
  case (1 run iteration iterations cells)
  show ?case
  proof (cases "iteration < iterations")
    case True
    then have n: "nat (iterations - iteration) = Suc (nat (iterations - (iteration + 1)))" by simp
    have "set (simulate run iteration iterations cells) =
          set (simulate run (iteration + 1) iterations (generation (run iteration) cells))"
      using True by (simp add: simulate.simps[of run iteration])
    also have "\<dots> = (step ^^ nat (iterations - (iteration + 1))) (set (generation (run iteration) cells))"
      using 1 True by blast
    also have "set (generation (run iteration) cells) = step (set cells)"
      using 1 by (simp add: set_generation)
    finally show ?thesis
      unfolding n by (simp add: funpow_swap1)
  next
    case False
    then show ?thesis by (simp add: simulate.simps[of run iteration])
  qed
qed

lemma sint_word_of_int64: "in_int64 i \<Longrightarrow> sint (word_of_int i :: int64) = i"
  unfolding in_int64_def
  by (simp add: sint_sbintrunc' signed_take_bit_int_eq_self)

section \<open>Properties of the parser\<close>

lemma DecodeRune_ascii: "of_char c < (128 :: nat) \<Longrightarrow> DecodeRune (c # s) = (of_char c, 1)"
  by (simp add: DecodeRune_def)

lemma runes_ascii: "\<forall>c\<in>set s. of_char c < (128 :: nat) \<Longrightarrow> runes s = map of_char s"
proof (induction s)
  case Nil
  then show ?case by (simp add: runes.simps[of "[]"])
next
  case (Cons c s)
  then show ?case
    by (simp add: DecodeRune_ascii runes.simps[of "c # s"])
qed

lemma runes_header: "runes FILE_HEADER = [35, 76, 105, 102, 101, 32, 49, 46, 48, 54]"
  by (simp add: runes_ascii FILE_HEADER_def)

lemma runes_hash: "runes ''#'' = [35]"
  by (simp add: runes_ascii)

lemma Fscanf_Nil: "Fscanf [] = None"
  by (simp add: Fscanf_def SkipSpace_def scanInt_def)

lemma header_is_comment: "header_line l \<Longrightarrow> comment_line l"
  by (simp add: header_line_def comment_line_def runes_header runes_hash HasPrefix_def)

lemma blank_is_malformed: "blank_line l \<Longrightarrow> malformed_line l"
  by (simp add: blank_line_def malformed_line_def comment_line_def Fscanf_Nil HasPrefix_def runes_hash)

lemma parseLines_comment:
  "comment_line l \<Longrightarrow>
   parseLines (l # rest) cells headerFound =
     parseLines rest cells (if header_line l \<and> length cells = 0 then True else headerFound)"
  by (simp add: comment_line_def header_line_def Let_def)


lemma parseLines_malformed_head:
  "malformed_line l \<Longrightarrow> parseLines (l # rest) cells headerFound = Inl (MalformedLine (length cells + 1))"
  by (simp add: malformed_line_def comment_line_def Let_def)






section \<open>Printing, and reading what was printed\<close>

lemmas parse_eval =
  parseCells_def scanLines_def splitLines.simps dropCR_def MaxScanTokenSize_def newline_def
  runes_ascii TrimSpace_def isSpace_def HasPrefix_def Fscanf_def SkipSpace_def scanInt_def
  matchSpace_def isDigit_def ParseInt_def FILE_HEADER_def addCell_def Let_def

lemmas print_eval =
  printCells_def Fprintf_def empty_file_def fmtInteger_def fmtDigits.simps word_sless_alt
  in_order_def FILE_HEADER_def newline_def

lemma printLines_never_fails:
  "writes_left w = None \<Longrightarrow>
   \<exists>out. printLines cs w = (None, \<lparr>written = written w @ out, writes_left = None\<rparr>)"
proof (induction cs arbitrary: w)
  case Nil
  then have "printLines [] w = (None, \<lparr>written = written w @ [], writes_left = None\<rparr>)"
    by (cases w) simp
  then show ?case by (rule exI)
next
  case (Cons c cs)
  let ?line = "fmtInteger (cell_x c) @ '' '' @ fmtInteger (cell_y c) @ [newline]"
  let ?w = "w\<lparr>written := written w @ ?line\<rparr>"
  have f: "Fprintf w ?line = Inr ?w"
    using Cons.prems by (simp add: Fprintf_def)
  have "writes_left ?w = None" using Cons.prems by simp
  from Cons.IH[OF this] obtain out where
    "printLines cs ?w = (None, \<lparr>written = written ?w @ out, writes_left = None\<rparr>)" by blast
  moreover have "printLines (c # cs) w = printLines cs ?w"
    by (simp only: printLines.simps f sum.case)
  moreover have "written ?w @ out = written w @ (?line @ out)"
    by simp
  ultimately have "printLines (c # cs) w = (None, \<lparr>written = written w @ (?line @ out), writes_left = None\<rparr>)"
    by (simp only:)
  then show ?case by (rule exI)
qed

lemma printCells_empty_file:
  "\<exists>out. printCells rng empty_file cells =
     (None, \<lparr>written = FILE_HEADER @ newline # newline # out, writes_left = None\<rparr>)"
proof -
  let ?w = "\<lparr>written = FILE_HEADER @ [newline, newline], writes_left = None\<rparr>"
  have f: "Fprintf empty_file (FILE_HEADER @ [newline, newline]) = Inr ?w"
    by (simp add: Fprintf_def empty_file_def)
  obtain out where "printLines (rng PrintCells cells) ?w = (None, \<lparr>written = written ?w @ out, writes_left = None\<rparr>)"
    using printLines_never_fails[of ?w] by auto
  then show ?thesis
    by (simp add: printCells_def f)
qed

lemma header_no_newline: "newline \<notin> set FILE_HEADER"
  by (simp add: FILE_HEADER_def newline_def)

lemma splitLines_header:
  "splitLines (FILE_HEADER @ newline # newline # out) = FILE_HEADER # [] # splitLines out"
proof -
  have t: "takeWhile (\<lambda>c. c \<noteq> newline) (FILE_HEADER @ newline # newline # out) = FILE_HEADER"
    by (simp add: FILE_HEADER_def newline_def)
  have d: "dropWhile (\<lambda>c. c \<noteq> newline) (FILE_HEADER @ newline # newline # out) = newline # newline # out"
    by (simp add: FILE_HEADER_def newline_def)
  have "splitLines (FILE_HEADER @ newline # newline # out) = FILE_HEADER # splitLines (newline # out)"
    by (subst splitLines.simps) (simp add: t d)
  also have "splitLines (newline # out) = [] # splitLines out"
    by (subst splitLines.simps) simp
  finally show ?thesis .
qed

lemma scanLines_header:
  "\<exists>others. scanLines (FILE_HEADER @ newline # newline # out) = FILE_HEADER # [] # others"
proof -
  have "length FILE_HEADER < MaxScanTokenSize" "dropCR FILE_HEADER = FILE_HEADER"
    by (simp_all add: FILE_HEADER_def MaxScanTokenSize_def dropCR_def)
  then show ?thesis
    unfolding scanLines_def splitLines_header
    by (simp add: MaxScanTokenSize_def dropCR_def)
qed

lemma header_line_header: "header_line FILE_HEADER"
  unfolding header_line_def runes_header by (simp add: TrimSpace_def isSpace_def)

lemma blank_line_Nil: "blank_line []"
  by (simp add: blank_line_def runes.simps[of "[]"] TrimSpace_def)

lemma parseLines_header_blank:
  "parseLines (FILE_HEADER # [] # others) [] False = Inl (MalformedLine 1)"
  using parseLines_comment[OF header_is_comment[OF header_line_header], of "[] # others" "[]" False]
    parseLines_malformed_head[OF blank_is_malformed[OF blank_line_Nil], of others "[]"]
  by (simp add: header_line_header del: parseLines.simps)

lemma reparse_printed:
  assumes "printCells rng empty_file cells = (err, w)" and "fs path = Some (written w)"
  shows "parseCells fs path = Inl (MalformedLine 1)"
proof -
  obtain out where "printCells rng empty_file cells =
     (None, \<lparr>written = FILE_HEADER @ newline # newline # out, writes_left = None\<rparr>)"
    using printCells_empty_file by blast
  then have w: "written w = FILE_HEADER @ newline # newline # out"
    using assms(1) by auto
  obtain others where "scanLines (written w) = FILE_HEADER # [] # others"
    unfolding w using scanLines_header by blast
  then show ?thesis
    by (simp add: parseCells_def assms(2) parseLines_header_blank del: parseLines.simps)
qed

lemma digit_chars:
  "char_of (48 :: nat) = CHR ''0''" "char_of (49 :: nat) = CHR ''1''" "char_of (50 :: nat) = CHR ''2''"
  "char_of (51 :: nat) = CHR ''3''" "char_of (52 :: nat) = CHR ''4''" "char_of (53 :: nat) = CHR ''5''"
  "char_of (54 :: nat) = CHR ''6''" "char_of (55 :: nat) = CHR ''7''" "char_of (56 :: nat) = CHR ''8''"
  "char_of (57 :: nat) = CHR ''9''"
  by (simp_all add: char_of_def bit_0)

lemma print_origin:
  "printCells in_order empty_file [Cell 0 0] =
     (None, \<lparr>written = ''#Life 1.06'' @ [newline, newline] @ ''0 0'' @ [newline], writes_left = None\<rparr>)"
  by (simp add: print_eval digit_chars)


lemmas line_eval =
  comment_line_def header_line_def coordinate_line_def malformed_line_def blank_line_def

lemma print_3_4:
  "printCells in_order empty_file [Cell 3 4] =
     (None, \<lparr>written = ''#Life 1.06'' @ [newline, newline] @ ''3 4'' @ [newline], writes_left = None\<rparr>)"
  by (simp add: print_eval digit_chars)

lemma parse_b: "parseCells only_b_life ''b.life'' = Inr [Cell 0 0]"
  by (simp add: only_b_life_def parse_eval)

lemma parse_none: "parseCells only_b_life '''' = Inl FileAccessError"
  by (simp add: only_b_life_def parseCells_def)

section \<open>The blinker, evaluated\<close>

lemma interior_numerals:
  "MinInt64 <s 0" "MinInt64 <s 1" "MinInt64 <s 2" "MinInt64 <s 3" "MinInt64 <s - 1" "MinInt64 <s - 2"
  "0 <s MaxInt64" "1 <s MaxInt64" "2 <s MaxInt64" "3 <s MaxInt64" "- 1 <s MaxInt64" "- 2 <s MaxInt64"
  by (simp_all add: word_sless_alt MinInt64_def MaxInt64_def)

lemma neighbors_interior:
  "MinInt64 <s x \<Longrightarrow> x <s MaxInt64 \<Longrightarrow> MinInt64 <s y \<Longrightarrow> y <s MaxInt64 \<Longrightarrow>
   neighbors (Cell x y) =
     [Cell (x - 1) (y - 1), Cell (x - 1) y, Cell (x - 1) (y + 1),
      Cell x (y - 1), Cell x (y + 1),
      Cell (x + 1) (y - 1), Cell (x + 1) y, Cell (x + 1) (y + 1)]"
  by (simp add: neighbors_def yieldForX_def)

lemma alive_horizontal:
  "numAliveNeighbors [Cell 0 0, Cell 1 0, Cell 2 0] (Cell 0 0) = 1"
  "numAliveNeighbors [Cell 0 0, Cell 1 0, Cell 2 0] (Cell 1 0) = 2"
  "numAliveNeighbors [Cell 0 0, Cell 1 0, Cell 2 0] (Cell 2 0) = 1"
  "numAliveNeighbors [Cell 0 0, Cell 1 0, Cell 2 0] (Cell (- 1) (- 1)) = 1"
  "numAliveNeighbors [Cell 0 0, Cell 1 0, Cell 2 0] (Cell (- 1) 0) = 1"
  "numAliveNeighbors [Cell 0 0, Cell 1 0, Cell 2 0] (Cell (- 1) 1) = 1"
  "numAliveNeighbors [Cell 0 0, Cell 1 0, Cell 2 0] (Cell 0 (- 1)) = 2"
  "numAliveNeighbors [Cell 0 0, Cell 1 0, Cell 2 0] (Cell 0 1) = 2"
  "numAliveNeighbors [Cell 0 0, Cell 1 0, Cell 2 0] (Cell 1 (- 1)) = 3"
  "numAliveNeighbors [Cell 0 0, Cell 1 0, Cell 2 0] (Cell 1 1) = 3"
  "numAliveNeighbors [Cell 0 0, Cell 1 0, Cell 2 0] (Cell 2 (- 1)) = 2"
  "numAliveNeighbors [Cell 0 0, Cell 1 0, Cell 2 0] (Cell 2 1) = 2"
  "numAliveNeighbors [Cell 0 0, Cell 1 0, Cell 2 0] (Cell 3 (- 1)) = 1"
  "numAliveNeighbors [Cell 0 0, Cell 1 0, Cell 2 0] (Cell 3 0) = 1"
  "numAliveNeighbors [Cell 0 0, Cell 1 0, Cell 2 0] (Cell 3 1) = 1"
  by (simp_all add: numAliveNeighbors_def neighbors_interior interior_numerals hasCell_def)

lemma dead_horizontal:
  "deadNeighbors in_order [Cell 0 0, Cell 1 0, Cell 2 0] =
     [Cell 3 1, Cell 3 0, Cell 3 (- 1), Cell 2 1, Cell 2 (- 1), Cell 1 1, Cell 1 (- 1),
      Cell 0 1, Cell 0 (- 1), Cell (- 1) 1, Cell (- 1) 0, Cell (- 1) (- 1)]"
  by (simp add: deadNeighbors_def neighbors_interior interior_numerals hasCell_def addCell_def in_order_def)

lemma generation_horizontal:
  "generation in_order [Cell 0 0, Cell 1 0, Cell 2 0] = [Cell 1 1, Cell 1 (- 1), Cell 1 0]"
  by (simp add: generation_def dead_horizontal alive_horizontal addCell_def removeCell_def in_order_def)

lemma alive_vertical:
  "numAliveNeighbors [Cell 1 1, Cell 1 (- 1), Cell 1 0] (Cell 1 1) = 1"
  "numAliveNeighbors [Cell 1 1, Cell 1 (- 1), Cell 1 0] (Cell 1 (- 1)) = 1"
  "numAliveNeighbors [Cell 1 1, Cell 1 (- 1), Cell 1 0] (Cell 1 0) = 2"
  "numAliveNeighbors [Cell 1 1, Cell 1 (- 1), Cell 1 0] (Cell 0 (- 2)) = 1"
  "numAliveNeighbors [Cell 1 1, Cell 1 (- 1), Cell 1 0] (Cell 1 (- 2)) = 1"
  "numAliveNeighbors [Cell 1 1, Cell 1 (- 1), Cell 1 0] (Cell 2 (- 2)) = 1"
  "numAliveNeighbors [Cell 1 1, Cell 1 (- 1), Cell 1 0] (Cell 0 (- 1)) = 2"
  "numAliveNeighbors [Cell 1 1, Cell 1 (- 1), Cell 1 0] (Cell 2 (- 1)) = 2"
  "numAliveNeighbors [Cell 1 1, Cell 1 (- 1), Cell 1 0] (Cell 0 0) = 3"
  "numAliveNeighbors [Cell 1 1, Cell 1 (- 1), Cell 1 0] (Cell 2 0) = 3"
  "numAliveNeighbors [Cell 1 1, Cell 1 (- 1), Cell 1 0] (Cell 0 1) = 2"
  "numAliveNeighbors [Cell 1 1, Cell 1 (- 1), Cell 1 0] (Cell 2 1) = 2"
  "numAliveNeighbors [Cell 1 1, Cell 1 (- 1), Cell 1 0] (Cell 0 2) = 1"
  "numAliveNeighbors [Cell 1 1, Cell 1 (- 1), Cell 1 0] (Cell 1 2) = 1"
  "numAliveNeighbors [Cell 1 1, Cell 1 (- 1), Cell 1 0] (Cell 2 2) = 1"
  by (simp_all add: numAliveNeighbors_def neighbors_interior interior_numerals hasCell_def)

lemma dead_vertical:
  "deadNeighbors in_order [Cell 1 1, Cell 1 (- 1), Cell 1 0] =
     [Cell 2 (- 1), Cell 2 (- 2), Cell 1 (- 2), Cell 0 (- 1), Cell 0 (- 2),
      Cell 2 2, Cell 2 1, Cell 2 0, Cell 1 2, Cell 0 2, Cell 0 1, Cell 0 0]"
  by (simp add: deadNeighbors_def neighbors_interior interior_numerals hasCell_def addCell_def in_order_def)

lemma generation_vertical:
  "generation in_order [Cell 1 1, Cell 1 (- 1), Cell 1 0] = [Cell 2 0, Cell 0 0, Cell 1 0]"
  by (simp add: generation_def dead_vertical alive_vertical addCell_def removeCell_def in_order_def)

lemma step_horizontal: "step {Cell 0 0, Cell 1 0, Cell 2 0} = {Cell 1 (- 1), Cell 1 0, Cell 1 1}"
proof -
  have "step (set [Cell 0 0, Cell 1 0, Cell 2 0]) = set (generation in_order [Cell 0 0, Cell 1 0, Cell 2 0])"
    by (simp only: set_generation[OF visits_in_order])
  then show ?thesis
    unfolding generation_horizontal by auto
qed

lemma step_vertical: "step {Cell 1 (- 1), Cell 1 0, Cell 1 1} = {Cell 0 0, Cell 1 0, Cell 2 0}"
proof -
  have "step (set [Cell 1 1, Cell 1 (- 1), Cell 1 0]) = set (generation in_order [Cell 1 1, Cell 1 (- 1), Cell 1 0])"
    by (simp only: set_generation[OF visits_in_order])
  moreover have "set [Cell 1 1, Cell 1 (- 1), Cell 1 0] = {Cell 1 (- 1), Cell 1 0, Cell 1 1 :: Cell}"
    by auto
  ultimately show ?thesis
    unfolding generation_vertical by auto
qed

section \<open>The claims\<close>

text \<open>
  C1. For every cell set \<open>C\<close>, whatever order the runtime picks at each \<open>range\<close>, one
  pass through the loop body leaves exactly the live cells of \<open>C\<close> with two or three
  live neighbours, together with the dead cells that are a neighbour of some cell of \<open>C\<close>
  and have exactly three live neighbours. Every count is \<open>numAliveNeighbors\<close> of the
  cells as they were before the pass, and that is the number of neighbours of the cell
  that are members of \<open>C\<close>: the \<open>uint8\<close> counter does not wrap.
\<close>

theorem generation_rule:
  assumes "visits_each_once rng"
  shows "set (generation rng cells) =
           {c \<in> set cells. unat (numAliveNeighbors cells c) = 2 \<or> unat (numAliveNeighbors cells c) = 3} \<union>
           {d. d \<notin> set cells \<and> (\<exists>c\<in>set cells. d \<in> set (neighbors c)) \<and>
               unat (numAliveNeighbors cells d) = 3}
         \<and> (\<forall>c. unat (numAliveNeighbors cells c) = card (set (neighbors c) \<inter> set cells))"
proof -
  have "set (generation rng cells) =
           {c \<in> set cells. unat (numAliveNeighbors cells c) = 2 \<or> unat (numAliveNeighbors cells c) = 3} \<union>
           {d. d \<notin> set cells \<and> (\<exists>c\<in>set cells. d \<in> set (neighbors c)) \<and>
               unat (numAliveNeighbors cells d) = 3}"
    unfolding set_generation[OF assms] step_def candidateDeadNeighbors_def numAlive_count
    by blast
  moreover have "\<forall>c. unat (numAliveNeighbors cells c) = card (set (neighbors c) \<inter> set cells)"
    by (simp add: numAlive_count countLiveNeighbors_def)
  ultimately show ?thesis by (rule conjI)
qed

theorem generation_rule_witness:
  "visits_each_once reversed \<and>
   set (generation reversed blinker) =
     {c \<in> set blinker. unat (numAliveNeighbors blinker c) = 2 \<or> unat (numAliveNeighbors blinker c) = 3} \<union>
     {d. d \<notin> set blinker \<and> (\<exists>c\<in>set blinker. d \<in> set (neighbors c)) \<and>
         unat (numAliveNeighbors blinker d) = 3} \<and>
   (\<forall>c. unat (numAliveNeighbors blinker c) = card (set (neighbors c) \<inter> set blinker))"
proof -
  have h: "visits_each_once reversed" by (rule visits_reversed)
  from h generation_rule[OF h, of blinker] show ?thesis by (rule conjI)
qed

text \<open>
  C2. The neighbours of a cell \<open>(x, y)\<close> are exactly the cells \<open>(x + dx, y + dy)\<close> with
  \<open>dx\<close> and \<open>dy\<close> in \<open>{-1, 0, 1}\<close>, not both 0, whose two coordinates, computed in the
  integers, lie in the range of \<open>int64\<close>: an offset that leaves the range gives no cell,
  neither a wrapped nor a clamped one. No neighbour is sent twice, there are at most 8, and
  fewer than 8 only when a coordinate of the cell is \<open>MinInt64\<close> or \<open>MaxInt64\<close>.
\<close>

theorem neighbors_moore:
  "set (neighbors c) =
     {Cell (word_of_int (sint (cell_x c) + dx)) (word_of_int (sint (cell_y c) + dy)) | dx dy.
        dx \<in> {-1, 0, 1} \<and> dy \<in> {-1, 0, 1} \<and> (dx, dy) \<noteq> (0, 0) \<and>
        in_int64 (sint (cell_x c) + dx) \<and> in_int64 (sint (cell_y c) + dy)}
   \<and> distinct (neighbors c) \<and> length (neighbors c) \<le> 8
   \<and> (length (neighbors c) < 8 \<longrightarrow>
        cell_x c = MinInt64 \<or> cell_x c = MaxInt64 \<or> cell_y c = MinInt64 \<or> cell_y c = MaxInt64)"
proof -
  let ?M = "{Cell (word_of_int (sint (cell_x c) + dx)) (word_of_int (sint (cell_y c) + dy)) | dx dy.
        dx \<in> {-1, 0, 1} \<and> dy \<in> {-1, 0, 1} \<and> (dx, dy) \<noteq> (0, 0) \<and>
        in_int64 (sint (cell_x c) + dx) \<and> in_int64 (sint (cell_y c) + dy)}"
  have "d \<in> set (neighbors c) \<longleftrightarrow> d \<in> ?M" for d
  proof
    assume "d \<in> set (neighbors c)"
    then have d: "d \<noteq> c" "\<bar>sint (cell_x d) - sint (cell_x c)\<bar> \<le> 1" "\<bar>sint (cell_y d) - sint (cell_y c)\<bar> \<le> 1"
      by (simp_all add: set_neighbors)
    define dx where "dx = sint (cell_x d) - sint (cell_x c)"
    define dy where "dy = sint (cell_y d) - sint (cell_y c)"
    have x: "sint (cell_x c) + dx = sint (cell_x d)" and y: "sint (cell_y c) + dy = sint (cell_y d)"
      by (simp_all add: dx_def dy_def)
    have "dx \<in> {-1, 0, 1}" "dy \<in> {-1, 0, 1}"
      using d(2,3) unfolding dx_def dy_def by auto
    moreover have "(dx, dy) \<noteq> (0, 0)"
    proof
      assume "(dx, dy) = (0, 0)"
      then have "cell_x d = cell_x c" "cell_y d = cell_y c"
        using x y sint_inj64 by auto
      then show False using d(1) by (simp add: Cell.expand)
    qed
    moreover have "in_int64 (sint (cell_x c) + dx)" "in_int64 (sint (cell_y c) + dy)"
      unfolding x y in_int64_def using sint_bounds64 by auto
    moreover have "d = Cell (word_of_int (sint (cell_x c) + dx)) (word_of_int (sint (cell_y c) + dy))"
      unfolding x y by simp
    ultimately show "d \<in> ?M" by blast
  next
    assume "d \<in> ?M"
    then obtain dx dy where m: "d = Cell (word_of_int (sint (cell_x c) + dx)) (word_of_int (sint (cell_y c) + dy))"
      "dx \<in> {-1, 0, 1}" "dy \<in> {-1, 0, 1}" "(dx, dy) \<noteq> (0, 0)"
      "in_int64 (sint (cell_x c) + dx)" "in_int64 (sint (cell_y c) + dy)"
      by blast
    have "cell_x d = word_of_int (sint (cell_x c) + dx)" "cell_y d = word_of_int (sint (cell_y c) + dy)"
      unfolding m(1) by (simp_all only: Cell.sel)
    then have x: "sint (cell_x d) = sint (cell_x c) + dx" and y: "sint (cell_y d) = sint (cell_y c) + dy"
      by (simp_all only: sint_word_of_int64[OF m(5)] sint_word_of_int64[OF m(6)])
    have "d \<noteq> c" using x y m(4) by auto
    moreover have "\<bar>sint (cell_x d) - sint (cell_x c)\<bar> \<le> 1" "\<bar>sint (cell_y d) - sint (cell_y c)\<bar> \<le> 1"
      using x y m(2,3) by auto
    ultimately show "d \<in> set (neighbors c)" by (simp add: set_neighbors)
  qed
  then have "set (neighbors c) = ?M" by blast
  moreover have "length (neighbors c) < 8 \<longrightarrow>
        cell_x c = MinInt64 \<or> cell_x c = MaxInt64 \<or> cell_y c = MinInt64 \<or> cell_y c = MaxInt64"
    using length_neighbors_8[of c] not_above_Min not_below_Max by fastforce
  ultimately show ?thesis
    using distinct_neighbors length_neighbors by blast
qed

theorem neighbors_moore_witness:
  "length (neighbors (Cell MinInt64 0)) < 8 \<and>
   (cell_x (Cell MinInt64 0) = MinInt64 \<or> cell_x (Cell MinInt64 0) = MaxInt64 \<or>
    cell_y (Cell MinInt64 0) = MinInt64 \<or> cell_y (Cell MinInt64 0) = MaxInt64)"
proof -
  have h: "length (neighbors (Cell MinInt64 0)) < 8"
    by (simp add: neighbors_def yieldForX_def word_sless_alt MinInt64_def MaxInt64_def)
  from h neighbors_moore[of "Cell MinInt64 0", THEN conjunct2, THEN conjunct2, THEN conjunct2, THEN mp, OF h]
  show ?thesis by (rule conjI)
qed

text \<open>
  C3. Two cell sets with the same members, laid out in memory in any two ways and run
  for the same number of iterations under any two behaviours of the runtime (any order at
  every \<open>range\<close> of the death pass, the birth pass and the apply phase, in every
  iteration), end with the same members.
\<close>

theorem simulate_deterministic:
  assumes "\<forall>i. visits_each_once (run1 i)" and "\<forall>i. visits_each_once (run2 i)"
    and "set cells1 = set cells2"
  shows "set (simulate run1 0 iterations cells1) = set (simulate run2 0 iterations cells2)"
  using assms by (simp add: set_simulate)

theorem simulate_deterministic_witness:
  "(\<forall>i. visits_each_once ((\<lambda>i. in_order) i)) \<and> (\<forall>i. visits_each_once ((\<lambda>i. reversed) i)) \<and>
   set blinker = set (rev blinker) \<and>
   set (simulate (\<lambda>i. in_order) 0 2 blinker) = set (simulate (\<lambda>i. reversed) 0 2 (rev blinker))"
proof -
  have a: "\<forall>i. visits_each_once ((\<lambda>i. in_order) i)" by (simp add: visits_in_order)
  have b: "\<forall>i. visits_each_once ((\<lambda>i. reversed) i)" by (simp add: visits_reversed)
  have c: "set blinker = set (rev blinker)" by simp
  from a b c simulate_deterministic[OF a b c, of 2] show ?thesis by (intro conjI)
qed

text \<open>
  C4. What \<open>printCells\<close> writes for the cell set \<open>{(3, 4)}\<close> is not read back:
  \<open>parseCells\<close> fails at the blank line that follows the header.
\<close>

theorem roundtrip_rejected:
  "printCells in_order empty_file [Cell 3 4] =
     (None, \<lparr>written = ''#Life 1.06'' @ [newline, newline] @ ''3 4'' @ [newline], writes_left = None\<rparr>) \<and>
   parseCells (file_with (''#Life 1.06'' @ [newline, newline] @ ''3 4'' @ [newline])) ''out.life''
     = Inl (MalformedLine 1)"
proof -
  let ?out = "''#Life 1.06'' @ [newline, newline] @ ''3 4'' @ [newline]"
  have "file_with ?out ''out.life'' = Some (written \<lparr>written = ?out, writes_left = None\<rparr>)"
    by (simp add: file_with_def)
  from print_3_4 reparse_printed[where fs = "file_with ?out" and path = "''out.life''", OF print_3_4 this]
  show ?thesis by (rule conjI)
qed

text \<open>
  C5. \<open>runGameOfLife\<close> opens the file named by the flag variable, not by its parameter
  \<open>inputFile\<close>: with the same parameter \<open>b.life\<close>, the same iteration count and the same
  files, it fails to open a file when the flag is empty and succeeds when the flag is
  \<open>b.life\<close>.
\<close>

theorem runGameOfLife_reads_flag:
  "runGameOfLife '''' only_b_life (\<lambda>i. in_order) empty_file ''b.life'' 0
     = (Some (ParsingCellsFailed FileAccessError), empty_file) \<and>
   runGameOfLife ''b.life'' only_b_life (\<lambda>i. in_order) empty_file ''b.life'' 0
     = (None, \<lparr>written = ''#Life 1.06'' @ [newline, newline] @ ''0 0'' @ [newline], writes_left = None\<rparr>)"
  by (simp add: runGameOfLife_def parse_b parse_none simulate.simps[of _ 0 0] print_origin)

text \<open>
  C6. The count in the malformed-line error is the number of distinct cells read so far
  plus one, not the ordinal of the line: here the line that fails is the fourth line of
  the file and the third that is no comment, after a header and the same coordinates
  twice, and the count reported is 2.
\<close>

theorem malformed_line_count:
  "scanLines (''#Life 1.06'' @ [newline] @ ''1 2'' @ [newline] @ ''1 2'' @ [newline] @ ''foo'' @ [newline])
     = [''#Life 1.06'', ''1 2'', ''1 2'', ''foo''] \<and>
   comment_line ''#Life 1.06'' \<and> coordinate_line ''1 2'' \<and> malformed_line ''foo'' \<and>
   parseCells (file_with (''#Life 1.06'' @ [newline] @ ''1 2'' @ [newline] @ ''1 2'' @ [newline] @ ''foo'' @ [newline]))
     ''in.life'' = Inl (MalformedLine 2)"
  by (simp add: line_eval parse_eval file_with_def)




text \<open>
  C8. The blinker \<open>{(0,0), (1,0), (2,0)}\<close> is \<open>{(1,-1), (1,0), (1,1)}\<close> after one
  iteration and itself again after two, whatever order the runtime picks.
\<close>

theorem blinker_period:
  assumes "\<forall>i. visits_each_once (run i)"
  shows "set (simulate run 0 1 blinker) = {Cell 1 (- 1), Cell 1 0, Cell 1 1} \<and>
         set (simulate run 0 2 blinker) = {Cell 0 0, Cell 1 0, Cell 2 0}"
proof -
  have b: "set blinker = {Cell 0 0, Cell 1 0, Cell 2 0}"
    by (simp add: blinker_def)
  have two: "nat (2 - 0) = Suc (Suc 0)" by simp
  have "set (simulate run 0 1 blinker) = step (set blinker)"
    using set_simulate[OF assms, of 0 1 blinker] by simp
  moreover have "set (simulate run 0 2 blinker) = step (step (set blinker))"
    using set_simulate[OF assms, of 0 2 blinker] unfolding two by simp
  ultimately show ?thesis
    unfolding b step_horizontal step_vertical by simp
qed

theorem blinker_period_witness:
  "(\<forall>i. visits_each_once ((\<lambda>i. reversed) i)) \<and>
   set (simulate (\<lambda>i. reversed) 0 1 blinker) = {Cell 1 (- 1), Cell 1 0, Cell 1 1} \<and>
   set (simulate (\<lambda>i. reversed) 0 2 blinker) = {Cell 0 0, Cell 1 0, Cell 2 0}"
proof -
  have a: "\<forall>i. visits_each_once ((\<lambda>i. reversed) i)" by (simp add: visits_reversed)
  from a blinker_period[OF a] show ?thesis by (rule conjI)
qed

text \<open>
  C9. With \<open>iterations = 0\<close> the loop body never runs and the cells are the ones given,
  whatever the runtime does.
\<close>

theorem zero_iterations: "simulate run 0 0 cells = cells"
  by (simp add: simulate.simps[of run 0 0])



end
